theory Spec2Isabelle
  imports Complex_Main "HOL-Library.Multiset"
begin

section \<open>Data model\<close>

text \<open>
  The repository holds three single-server queue simulators: \<open>MM1Simulator\<close>
  (Lab1partA.py, synthetic arrivals, stops after \<open>npkts\<close> departures),
  \<open>TraceSimulator\<close> (Lab1partB.py, arrivals replayed from a trace) and
  \<open>Simulator\<close> (001.py, synthetic arrivals, packets as objects).

  Python floats are idealised as \<open>real\<close>: rounding is not modelled. Python
  exceptions are values of \<open>error\<close>; a function that can raise returns
  \<open>error + 'a\<close> with \<open>Inl\<close> for the exception. Console output and plotting
  are not modelled.
\<close>

datatype error = ZeroDivisionError | IndexError | KeyError | TypeError | AttributeError

datatype event_type = Arrival | Departure

section \<open>The library heap (heapq)\<close>

text \<open>
  \<open>heapq.heappush\<close> and \<open>heapq.heappop\<close> as CPython implements them: a binary heap
  in a list, the parent of position \<open>pos\<close> at \<open>(pos - 1) >> 1\<close>. The comparison is a
  parameter (\<open>__lt__\<close> of the items).
\<close>

function siftdown_loop :: "('a \<Rightarrow> 'a \<Rightarrow> bool) \<Rightarrow> 'a list \<Rightarrow> nat \<Rightarrow> nat \<Rightarrow> 'a \<Rightarrow> 'a list" where
  "siftdown_loop lt heap startpos pos newitem =
     (if pos > startpos then
        (let parentpos = (pos - 1) div 2;
             parent = heap ! parentpos
         in if lt newitem parent
            then siftdown_loop lt (heap[pos := parent]) startpos parentpos newitem
            else heap[pos := newitem])
      else heap[pos := newitem])"
  by pat_completeness auto
termination
  by (relation "measure (\<lambda>(lt, heap, startpos, pos, newitem). pos)") auto

declare siftdown_loop.simps [simp del]

definition siftdown :: "('a \<Rightarrow> 'a \<Rightarrow> bool) \<Rightarrow> 'a list \<Rightarrow> nat \<Rightarrow> nat \<Rightarrow> 'a list" where
  "siftdown lt heap startpos pos = siftdown_loop lt heap startpos pos (heap ! pos)"

function siftup_loop :: "('a \<Rightarrow> 'a \<Rightarrow> bool) \<Rightarrow> 'a list \<Rightarrow> nat \<Rightarrow> nat \<Rightarrow> 'a list \<times> nat" where
  "siftup_loop lt heap endpos pos =
     (let childpos = 2 * pos + 1 in
      if childpos < endpos then
        (let rightpos = childpos + 1;
             c = (if rightpos < endpos \<and> \<not> lt (heap ! childpos) (heap ! rightpos)
                  then rightpos else childpos)
         in siftup_loop lt (heap[pos := heap ! c]) endpos c)
      else (heap, pos))"
  by pat_completeness auto
termination
  by (relation "measure (\<lambda>(lt, heap, endpos, pos). endpos - pos)") auto

declare siftup_loop.simps [simp del]

definition siftup :: "('a \<Rightarrow> 'a \<Rightarrow> bool) \<Rightarrow> 'a list \<Rightarrow> nat \<Rightarrow> 'a list" where
  "siftup lt heap pos =
     (let endpos = length heap;
          startpos = pos;
          newitem = heap ! pos;
          (heap', pos') = siftup_loop lt heap endpos pos
      in siftdown lt (heap'[pos' := newitem]) startpos pos')"

definition heappush :: "('a \<Rightarrow> 'a \<Rightarrow> bool) \<Rightarrow> 'a list \<Rightarrow> 'a \<Rightarrow> 'a list" where
  "heappush lt heap item = siftdown lt (heap @ [item]) 0 (length heap)"

text \<open>\<open>heappop\<close> on an empty list raises IndexError: the value \<open>None\<close>.\<close>

definition heappop :: "('a \<Rightarrow> 'a \<Rightarrow> bool) \<Rightarrow> 'a list \<Rightarrow> ('a \<times> 'a list) option" where
  "heappop lt heap =
     (if heap = [] then None
      else (let lastelt = last heap;
                heap' = butlast heap
            in if heap' \<noteq> []
               then (let returnitem = heap' ! 0
                     in Some (returnitem, siftup lt (heap'[0 := lastelt]) 0))
               else Some (lastelt, heap')))"

section \<open>Shared helpers\<close>

text \<open>
  \<open>random.expovariate(lambd)\<close> is \<open>-log(1 - random()) / lambd\<close>. The first argument
  is the value \<open>-log(1 - random())\<close> of the draw, a non-negative number supplied by the
  random source; the division raises when \<open>lambd\<close> is zero.
\<close>

definition expovariate :: "real \<Rightarrow> real \<Rightarrow> error + real" where
  "expovariate x lambd = (if lambd = 0 then Inl ZeroDivisionError else Inr (x / lambd))"

text \<open>\<open>xs[i] += 1\<close> with Python's indexing: a negative index counts from the end.\<close>

definition list_incr :: "nat list \<Rightarrow> int \<Rightarrow> error + nat list" where
  "list_incr xs i =
     (let n = int (length xs);
          j = (if i < 0 then n + i else i)
      in if 0 \<le> j \<and> j < n then Inr (xs[nat j := xs ! nat j + 1]) else Inl IndexError)"

text \<open>The statistics a report computes: \<open>N\<close>, \<open>T\<close> and the list of probabilities.\<close>

record Stats =
  N :: real
  T :: real
  pn_probs :: "real list"

text \<open>
  The loop \<open>for n in range(11): p = record[n] / total_arrivals\<close>, over the list of
  indices: the index is read first, then the division is made.
\<close>

fun pn_loop :: "nat list \<Rightarrow> nat \<Rightarrow> nat list \<Rightarrow> error + real list" where
  "pn_loop record total_arrivals [] = Inr []"
| "pn_loop record total_arrivals (n # ns) =
     (if n \<ge> length record then Inl IndexError
      else if total_arrivals = 0 then Inl ZeroDivisionError
      else (case pn_loop record total_arrivals ns of
              Inl e \<Rightarrow> Inl e
            | Inr ps \<Rightarrow> Inr (real (record ! n) / real total_arrivals # ps)))"

section \<open>Simulator (001.py)\<close>

text \<open>\<open>int(x)\<close> of a float: truncation towards zero.\<close>

definition py_int :: "real \<Rightarrow> int" where
  "py_int x = (if x \<ge> 0 then \<lfloor>x\<rfloor> else \<lceil>x\<rceil>)"

text \<open>
  Class \<open>Packet\<close>; the field \<open>size\<close> (in bytes) is named \<open>size_B\<close> here, and
  \<open>departure_time\<close> is \<open>None\<close> until the packet starts service. A packet object is
  held by one container at a time (an event, or the waiting buffer), so packets are
  values.
\<close>

record Packet =
  number :: nat
  arrival_time :: real
  size_B :: int
  departure_time :: "real option"

text \<open>Class \<open>Event\<close> of 001.py, which carries the packet itself.\<close>

record Event_001 =
  time :: real
  event_type :: event_type
  packet :: Packet

definition Event_001_lt :: "Event_001 \<Rightarrow> Event_001 \<Rightarrow> bool" where
  "Event_001_lt self other = (time self < time other)"

record Queue =
  buffer :: "Packet list"

definition Queue_init :: Queue where
  "Queue_init = \<lparr>buffer = []\<rparr>"

definition Queue_insert :: "Queue \<Rightarrow> Packet \<Rightarrow> Queue" where
  "Queue_insert self p = self\<lparr>buffer := buffer self @ [p]\<rparr>"

definition Queue_remove :: "Queue \<Rightarrow> Packet option \<times> Queue" where
  "Queue_remove self =
     (case buffer self of
        [] \<Rightarrow> (None, self)
      | p # rest \<Rightarrow> (Some p, self\<lparr>buffer := rest\<rparr>))"

definition Queue_len :: "Queue \<Rightarrow> nat" where
  "Queue_len self = length (buffer self)"

record Server =
  service_rate_bps :: int
  current_time :: int
  busy :: bool

definition Server_init :: Server where
  "Server_init = \<lparr>service_rate_bps = 10 * (10 ^ 9), current_time = 0, busy = False\<rparr>"

text \<open>The fields of the class, and \<open>draws\<close>, the number of random values taken so far.\<close>

record Simulator =
  npkts :: int
  lambd :: real
  event_list :: "Event_001 list"
  queue :: Queue
  server :: Server
  time :: real
  packet_count :: nat
  total_delay :: real
  total_packets_in_system :: nat
  pn_counter :: "nat list"
  generated_packets :: nat
  draws :: nat

definition Simulator_init :: "int \<Rightarrow> real \<Rightarrow> Simulator" where
  "Simulator_init n l =
     \<lparr>npkts = n, lambd = l, event_list = [], queue = Queue_init, server = Server_init,
      time = 0, packet_count = 0, total_delay = 0, total_packets_in_system = 0,
      pn_counter = replicate 11 0, generated_packets = 0, draws = 0\<rparr>"

definition Simulator_schedule_event :: "Simulator \<Rightarrow> Event_001 \<Rightarrow> Simulator" where
  "Simulator_schedule_event s event =
     s\<lparr>event_list := heappush Event_001_lt (event_list s) event\<rparr>"

definition Simulator_generate_packet :: "(nat \<Rightarrow> real) \<Rightarrow> Simulator \<Rightarrow> error + Packet \<times> Simulator" where
  "Simulator_generate_packet u s =
     (case expovariate (u (draws s)) (1 / 1250) of
        Inl e \<Rightarrow> Inl e
      | Inr x \<Rightarrow>
          (let size = py_int x;
               s1 = s\<lparr>draws := draws s + 1\<rparr>
           in case expovariate (u (draws s1)) (lambd s1) of
                Inl e \<Rightarrow> Inl e
              | Inr inter_arrival_time \<Rightarrow>
                  (let s2 = s1\<lparr>draws := draws s1 + 1\<rparr>;
                       arrival = time s2 + inter_arrival_time;
                       p = \<lparr>number = packet_count s2, arrival_time = arrival, size_B = size,
                            departure_time = None\<rparr>
                   in Inr (p, s2\<lparr>packet_count := packet_count s2 + 1\<rparr>))))"

text \<open>The service time, as both handlers compute it.\<close>

definition service_time_001 :: "Packet \<Rightarrow> Server \<Rightarrow> real" where
  "service_time_001 p srv =
     real_of_int (size_B p * 8) / real_of_int (service_rate_bps srv) * 1000000"

definition Simulator_handle_arrival :: "(nat \<Rightarrow> real) \<Rightarrow> Simulator \<Rightarrow> Event_001 \<Rightarrow> error + Simulator" where
  "Simulator_handle_arrival u s event =
     (let p = packet event;
          num_in_system = Queue_len (queue s)
      in case list_incr (pn_counter s) (int (min num_in_system 10)) of
           Inl e \<Rightarrow> Inl e
         | Inr cnt \<Rightarrow>
             (let s1 = s\<lparr>pn_counter := cnt\<rparr>;
                  s2 = (if \<not> busy (server s1)
                        then (let s' = s1\<lparr>server := (server s1)\<lparr>busy := True\<rparr>\<rparr>;
                                  service_time = service_time_001 p (server s');
                                  p' = p\<lparr>departure_time := Some (time s' + service_time)\<rparr>
                              in Simulator_schedule_event s'
                                   \<lparr>Event_001.time = time s' + service_time, event_type = Departure, packet = p'\<rparr>)
                        else s1\<lparr>queue := Queue_insert (queue s1) p\<rparr>)
              in if int (packet_count s2) < npkts s2
                 then (case Simulator_generate_packet u s2 of
                         Inl e \<Rightarrow> Inl e
                       | Inr (new_packet, s3) \<Rightarrow>
                           Inr (Simulator_schedule_event s3
                                  \<lparr>Event_001.time = arrival_time new_packet, event_type = Arrival,
                                   packet = new_packet\<rparr>))
                 else Inr s2))"

definition Simulator_handle_departure :: "Simulator \<Rightarrow> Event_001 \<Rightarrow> error + Simulator" where
  "Simulator_handle_departure s event =
     (let p = packet event in
      case departure_time p of
        None \<Rightarrow> Inl TypeError
      | Some d \<Rightarrow>
          (let delay = d - arrival_time p;
               s1 = s\<lparr>total_delay := total_delay s + delay,
                      total_packets_in_system := total_packets_in_system s + 1\<rparr>
           in if Queue_len (queue s1) > 0
              then (case Queue_remove (queue s1) of
                      (None, q) \<Rightarrow> Inl AttributeError
                    | (Some next_packet, q) \<Rightarrow>
                        (let s2 = s1\<lparr>queue := q\<rparr>;
                             service_time = service_time_001 next_packet (server s2);
                             p' = next_packet\<lparr>departure_time := Some (time s2 + service_time)\<rparr>
                         in Inr (Simulator_schedule_event s2
                                   \<lparr>Event_001.time = time s2 + service_time, event_type = Departure,
                                    packet = p'\<rparr>)))
              else Inr (s1\<lparr>server := (server s1)\<lparr>busy := False\<rparr>\<rparr>)))"

definition Simulator_iteration :: "(nat \<Rightarrow> real) \<Rightarrow> Simulator \<Rightarrow> error + Simulator \<times> Event_001" where
  "Simulator_iteration u s =
     (case heappop Event_001_lt (event_list s) of
        None \<Rightarrow> Inl IndexError
      | Some (event, rest) \<Rightarrow>
          (let s1 = s\<lparr>event_list := rest, time := Event_001.time event\<rparr>
           in case (case event_type event of
                      Arrival \<Rightarrow> Simulator_handle_arrival u s1 event
                    | Departure \<Rightarrow> Simulator_handle_departure s1 event) of
                Inl e \<Rightarrow> Inl e
              | Inr s2 \<Rightarrow> Inr (s2, event)))"

text \<open>
  The loop \<open>while self.packet_count < self.npkts or self.event_list\<close>, which breaks
  when the event list is empty; on fuel, with the list of the events popped so far.
\<close>

fun Simulator_loop :: "(nat \<Rightarrow> real) \<Rightarrow> nat \<Rightarrow> Simulator \<Rightarrow> Event_001 list
    \<Rightarrow> (error + Simulator \<times> Event_001 list) option" where
  "Simulator_loop u 0 s popped =
     (if int (packet_count s) < npkts s \<or> event_list s \<noteq> [] then
        (if event_list s = [] then Some (Inr (s, popped)) else None)
      else Some (Inr (s, popped)))"
| "Simulator_loop u (Suc fuel) s popped =
     (if int (packet_count s) < npkts s \<or> event_list s \<noteq> [] then
        (if event_list s = [] then Some (Inr (s, popped))
         else (case Simulator_iteration u s of
                 Inl e \<Rightarrow> Some (Inl e)
               | Inr (s', event) \<Rightarrow> Simulator_loop u fuel s' (popped @ [event])))
      else Some (Inr (s, popped)))"

text \<open>
  \<open>print_summary\<close>: the two averages, the eleven probabilities, and the list handed to
  the plot, whose division is not guarded.
\<close>

fun pn_loop_guarded :: "nat list \<Rightarrow> nat \<Rightarrow> nat list \<Rightarrow> error + real list" where
  "pn_loop_guarded counter total_arrivals [] = Inr []"
| "pn_loop_guarded counter total_arrivals (n # ns) =
     (if total_arrivals > 0 \<and> n \<ge> length counter then Inl IndexError
      else (case pn_loop_guarded counter total_arrivals ns of
              Inl e \<Rightarrow> Inl e
            | Inr ps \<Rightarrow>
                Inr ((if total_arrivals > 0 then real (counter ! n) / real total_arrivals else 0) # ps)))"

definition Simulator_print_summary :: "Simulator \<Rightarrow> error + Stats" where
  "Simulator_print_summary s =
     (if total_packets_in_system s = 0 then Inl ZeroDivisionError
      else (let avg_delay = total_delay s / real (total_packets_in_system s) in
        if time s = 0 then Inl ZeroDivisionError
        else (let avg_packets = total_delay s / time s;
                  total_arrivals = sum_list (pn_counter s)
              in case pn_loop_guarded (pn_counter s) total_arrivals [0..<11] of
                   Inl e \<Rightarrow> Inl e
                 | Inr ps \<Rightarrow>
                     (if pn_counter s \<noteq> [] \<and> total_arrivals = 0 then Inl ZeroDivisionError
                      else Inr \<lparr>N = avg_packets, T = avg_delay, pn_probs = ps\<rparr>))))"

text \<open>\<open>run\<close>: the first packet, the loop, then the summary.\<close>

definition Simulator_first_arrival :: "(nat \<Rightarrow> real) \<Rightarrow> Simulator \<Rightarrow> error + Simulator" where
  "Simulator_first_arrival u s =
     (case Simulator_generate_packet u s of
        Inl e \<Rightarrow> Inl e
      | Inr (first_packet, s1) \<Rightarrow>
          Inr (Simulator_schedule_event s1
                 \<lparr>Event_001.time = arrival_time first_packet, event_type = Arrival,
                  packet = first_packet\<rparr>))"

definition Simulator_run :: "(nat \<Rightarrow> real) \<Rightarrow> nat \<Rightarrow> Simulator
    \<Rightarrow> (error + (Simulator \<times> Event_001 list) \<times> Stats) option" where
  "Simulator_run u fuel s =
     (case Simulator_first_arrival u s of
        Inl e \<Rightarrow> Some (Inl e)
      | Inr s2 \<Rightarrow>
          (case Simulator_loop u fuel s2 [] of
             None \<Rightarrow> None
           | Some (Inl e) \<Rightarrow> Some (Inl e)
           | Some (Inr (s3, popped)) \<Rightarrow>
               (case Simulator_print_summary s3 of
                  Inl e \<Rightarrow> Some (Inl e)
                | Inr st \<Rightarrow> Some (Inr ((s3, popped), st)))))"

text \<open>The state after the first \<open>k\<close> iterations of the loop, with the events popped.\<close>

fun Simulator_iterations :: "(nat \<Rightarrow> real) \<Rightarrow> nat \<Rightarrow> Simulator \<Rightarrow> Event_001 list
    \<Rightarrow> error + Simulator \<times> Event_001 list" where
  "Simulator_iterations u 0 s popped = Inr (s, popped)"
| "Simulator_iterations u (Suc k) s popped =
     (if int (packet_count s) < npkts s \<or> event_list s \<noteq> [] then
        (if event_list s = [] then Inr (s, popped)
         else (case Simulator_iteration u s of
                 Inl e \<Rightarrow> Inl e
               | Inr (s', event) \<Rightarrow> Simulator_iterations u k s' (popped @ [event])))
      else Inr (s, popped))"

section \<open>Events and constants of Lab1partA.py and Lab1partB.py\<close>

text \<open>Class \<open>Event\<close> of Lab1partA.py and Lab1partB.py; \<open>__lt__\<close> compares the times only.\<close>

record Event =
  time :: real
  type :: event_type
  pkt_id :: nat

definition Event_lt :: "Event \<Rightarrow> Event \<Rightarrow> bool" where
  "Event_lt self other = (time self < time other)"

definition LINK_RATE_BPS :: real where
  "LINK_RATE_BPS = 10000000000"

definition MEAN_PKT_SIZE_BITS :: real where
  "MEAN_PKT_SIZE_BITS = 10000"

section \<open>MM1Simulator (Lab1partA.py)\<close>

text \<open>
  The fields of the class, and \<open>draws\<close>: the number of values taken from the random
  source so far. The source of randomness is a function \<open>u\<close> from the number of the
  draw to the value \<open>-log(1 - random())\<close> of that draw.
\<close>

record MM1Simulator =
  npkts :: int
  lambd :: real
  queue :: "(nat \<times> real) list"
  event_list :: "Event list"
  curr_time :: real
  next_pkt_id :: nat
  in_service :: bool
  total_delay :: real
  total_pkts :: nat
  queue_len_record :: "nat list"
  pkts_in_system :: int
  area_under_q :: real
  last_event_time :: real
  draws :: nat

definition MM1Simulator_init :: "int \<Rightarrow> real \<Rightarrow> MM1Simulator" where
  "MM1Simulator_init n l =
     \<lparr>npkts = n, lambd = l, queue = [], event_list = [], curr_time = 0, next_pkt_id = 0,
      in_service = False, total_delay = 0, total_pkts = 0,
      queue_len_record = replicate 12 0, pkts_in_system = 0, area_under_q = 0,
      last_event_time = 0, draws = 0\<rparr>"

definition MM1Simulator_schedule_event :: "MM1Simulator \<Rightarrow> Event \<Rightarrow> MM1Simulator" where
  "MM1Simulator_schedule_event s event = s\<lparr>event_list := heappush Event_lt (event_list s) event\<rparr>"

definition MM1Simulator_start_service :: "(nat \<Rightarrow> real) \<Rightarrow> MM1Simulator \<Rightarrow> error + MM1Simulator" where
  "MM1Simulator_start_service u s =
     (let s1 = s\<lparr>in_service := True\<rparr> in
      case queue s1 of
        [] \<Rightarrow> Inl IndexError
      | (pid, _) # _ \<Rightarrow>
          (case expovariate (u (draws s1)) (1 / MEAN_PKT_SIZE_BITS) of
             Inl e \<Rightarrow> Inl e
           | Inr pkt_size_bits \<Rightarrow>
               (let s2 = s1\<lparr>draws := draws s1 + 1\<rparr>;
                    service_time = (pkt_size_bits / LINK_RATE_BPS) * 1000000;
                    departure_time = curr_time s2 + service_time
                in Inr (MM1Simulator_schedule_event s2
                          \<lparr>time = departure_time, type = Departure, pkt_id = pid\<rparr>))))"

definition MM1Simulator_handle_arrival :: "(nat \<Rightarrow> real) \<Rightarrow> MM1Simulator \<Rightarrow> Event \<Rightarrow> error + MM1Simulator" where
  "MM1Simulator_handle_arrival u s event =
     (let index = (if pkts_in_system s \<le> 10 then pkts_in_system s else 11) in
      case list_incr (queue_len_record s) index of
        Inl e \<Rightarrow> Inl e
      | Inr rec \<Rightarrow>
          (let s1 = s\<lparr>queue_len_record := rec, pkts_in_system := pkts_in_system s + 1\<rparr> in
           case expovariate (u (draws s1)) (lambd s1) of
             Inl e \<Rightarrow> Inl e
           | Inr gap \<Rightarrow>
               (let s2 = s1\<lparr>draws := draws s1 + 1\<rparr>;
                    next_arrival_time = curr_time s2 + gap;
                    s3 = MM1Simulator_schedule_event s2
                           \<lparr>time = next_arrival_time, type = Arrival, pkt_id = next_pkt_id s2\<rparr>;
                    s4 = s3\<lparr>next_pkt_id := next_pkt_id s3 + 1\<rparr>;
                    s5 = s4\<lparr>queue := queue s4 @ [(pkt_id event, curr_time s4)]\<rparr>
                in if \<not> in_service s5 then MM1Simulator_start_service u s5 else Inr s5)))"

definition MM1Simulator_handle_departure :: "(nat \<Rightarrow> real) \<Rightarrow> MM1Simulator \<Rightarrow> Event \<Rightarrow> error + MM1Simulator" where
  "MM1Simulator_handle_departure u s event =
     (case queue s of
        [] \<Rightarrow> Inl IndexError
      | (pid, arrival_time') # rest \<Rightarrow>
          (let delay = curr_time s - arrival_time';
               s1 = s\<lparr>queue := rest,
                      total_delay := total_delay s + delay,
                      total_pkts := total_pkts s + 1,
                      pkts_in_system := pkts_in_system s - 1\<rparr>
           in if queue s1 \<noteq> [] then MM1Simulator_start_service u s1
              else Inr (s1\<lparr>in_service := False\<rparr>)))"

text \<open>
  One iteration of the loop of \<open>run\<close>: the event popped, and the state after its
  handler. The popped event is returned beside the state, so that the sequence of
  popped events can be observed.
\<close>

definition MM1Simulator_iteration :: "(nat \<Rightarrow> real) \<Rightarrow> MM1Simulator \<Rightarrow> error + MM1Simulator \<times> Event" where
  "MM1Simulator_iteration u s =
     (case heappop Event_lt (event_list s) of
        None \<Rightarrow> Inl IndexError
      | Some (event, rest) \<Rightarrow>
          (let s1 = s\<lparr>event_list := rest, curr_time := time event\<rparr>;
               s2 = s1\<lparr>area_under_q := area_under_q s1
                         + real_of_int (pkts_in_system s1) * (curr_time s1 - last_event_time s1)\<rparr>;
               s3 = s2\<lparr>last_event_time := curr_time s2\<rparr>
           in case (case type event of
                      Arrival \<Rightarrow> MM1Simulator_handle_arrival u s3 event
                    | Departure \<Rightarrow> MM1Simulator_handle_departure u s3 event) of
                Inl e \<Rightarrow> Inl e
              | Inr s4 \<Rightarrow> Inr (s4, event)))"

text \<open>
  The loop \<open>while self.total_pkts < self.npkts\<close>. It need not end (arrivals keep being
  scheduled), so it runs on fuel: \<open>None\<close> when the fuel is used up before the loop
  ends. The second component is the list of the events popped so far, in order.
\<close>

fun MM1Simulator_loop :: "(nat \<Rightarrow> real) \<Rightarrow> nat \<Rightarrow> MM1Simulator \<Rightarrow> Event list
    \<Rightarrow> (error + MM1Simulator \<times> Event list) option" where
  "MM1Simulator_loop u 0 s popped =
     (if int (total_pkts s) < npkts s then None else Some (Inr (s, popped)))"
| "MM1Simulator_loop u (Suc fuel) s popped =
     (if int (total_pkts s) < npkts s then
        (case MM1Simulator_iteration u s of
           Inl e \<Rightarrow> Some (Inl e)
         | Inr (s', event) \<Rightarrow> MM1Simulator_loop u fuel s' (popped @ [event]))
      else Some (Inr (s, popped)))"

text \<open>The statements of \<open>run\<close> before its loop: the first arrival is scheduled.\<close>

definition MM1Simulator_first_arrival :: "(nat \<Rightarrow> real) \<Rightarrow> MM1Simulator \<Rightarrow> error + MM1Simulator" where
  "MM1Simulator_first_arrival u s =
     (case expovariate (u (draws s)) (lambd s) of
        Inl e \<Rightarrow> Inl e
      | Inr first_arrival_time \<Rightarrow>
          (let s1 = s\<lparr>draws := draws s + 1\<rparr>;
               s2 = MM1Simulator_schedule_event s1
                      \<lparr>time = first_arrival_time, type = Arrival, pkt_id = next_pkt_id s1\<rparr>
           in Inr (s2\<lparr>next_pkt_id := next_pkt_id s2 + 1\<rparr>)))"

definition MM1Simulator_run :: "(nat \<Rightarrow> real) \<Rightarrow> nat \<Rightarrow> MM1Simulator
    \<Rightarrow> (error + MM1Simulator \<times> Event list) option" where
  "MM1Simulator_run u fuel s =
     (case MM1Simulator_first_arrival u s of
        Inl e \<Rightarrow> Some (Inl e)
      | Inr s3 \<Rightarrow> MM1Simulator_loop u fuel s3 [])"

text \<open>
  The state after the first \<open>k\<close> iterations of the loop (fewer when the loop ends
  before), with the events popped: every point of a run is such a state.
\<close>

fun MM1Simulator_iterations :: "(nat \<Rightarrow> real) \<Rightarrow> nat \<Rightarrow> MM1Simulator \<Rightarrow> Event list
    \<Rightarrow> error + MM1Simulator \<times> Event list" where
  "MM1Simulator_iterations u 0 s popped = Inr (s, popped)"
| "MM1Simulator_iterations u (Suc k) s popped =
     (if int (total_pkts s) < npkts s then
        (case MM1Simulator_iteration u s of
           Inl e \<Rightarrow> Inl e
         | Inr (s', event) \<Rightarrow> MM1Simulator_iterations u k s' (popped @ [event]))
      else Inr (s, popped))"

definition MM1Simulator_print_stats :: "MM1Simulator \<Rightarrow> error + Stats" where
  "MM1Simulator_print_stats s =
     (if curr_time s = 0 then Inl ZeroDivisionError
      else (let n = area_under_q s / curr_time s in
        if total_pkts s = 0 then Inl ZeroDivisionError
        else (let t = total_delay s / real (total_pkts s);
                  total_arrivals = sum_list (queue_len_record s)
              in case pn_loop (queue_len_record s) total_arrivals [0..<11] of
                   Inl e \<Rightarrow> Inl e
                 | Inr ps \<Rightarrow>
                     (if 11 \<ge> length (queue_len_record s) then Inl IndexError
                      else if total_arrivals = 0 then Inl ZeroDivisionError
                      else Inr \<lparr>N = n, T = t,
                                pn_probs = ps @ [real (queue_len_record s ! 11) / real total_arrivals]\<rparr>))))"

section \<open>TraceSimulator (Lab1partB.py)\<close>

text \<open>
  The trace is the loaded table: one row \<open>(inter_arrival_us, pkt_size_bytes)\<close> per
  packet, the row's position being the packet's id. Loading the file is outside the
  model.
\<close>

record TraceSimulator =
  trace :: "(real \<times> real) list"
  queue :: "(nat \<times> real \<times> real) list"
  event_list :: "Event list"
  curr_time :: real
  in_service :: bool
  total_delay :: real
  total_pkts :: nat
  queue_len_record :: "nat list"
  pkts_in_system :: int
  area_under_q :: real
  last_event_time :: real

definition TraceSimulator_init :: "(real \<times> real) list \<Rightarrow> TraceSimulator" where
  "TraceSimulator_init tr =
     \<lparr>trace = tr, queue = [], event_list = [], curr_time = 0, in_service = False,
      total_delay = 0, total_pkts = 0, queue_len_record = replicate 12 0,
      pkts_in_system = 0, area_under_q = 0, last_event_time = 0\<rparr>"

definition TraceSimulator_schedule_event :: "TraceSimulator \<Rightarrow> Event \<Rightarrow> TraceSimulator" where
  "TraceSimulator_schedule_event s event = s\<lparr>event_list := heappush Event_lt (event_list s) event\<rparr>"

definition TraceSimulator_start_service :: "TraceSimulator \<Rightarrow> error + TraceSimulator" where
  "TraceSimulator_start_service s =
     (let s1 = s\<lparr>in_service := True\<rparr> in
      case queue s1 of
        [] \<Rightarrow> Inl IndexError
      | (pid, _, service_time) # _ \<Rightarrow>
          (let departure_time = curr_time s1 + service_time
           in Inr (TraceSimulator_schedule_event s1
                     \<lparr>time = departure_time, type = Departure, pkt_id = pid\<rparr>)))"

definition TraceSimulator_handle_arrival :: "TraceSimulator \<Rightarrow> Event \<Rightarrow> error + TraceSimulator" where
  "TraceSimulator_handle_arrival s event =
     (if pkt_id event \<ge> length (trace s) then Inl KeyError
      else (let pkt_size_bytes = snd (trace s ! pkt_id event);
                service_time_us = (pkt_size_bytes * 8 / LINK_RATE_BPS) * 1000000;
                index = (if pkts_in_system s \<le> 10 then pkts_in_system s else 11)
            in case list_incr (queue_len_record s) index of
                 Inl e \<Rightarrow> Inl e
               | Inr rec \<Rightarrow>
                   (let s1 = s\<lparr>queue_len_record := rec, pkts_in_system := pkts_in_system s + 1\<rparr>;
                        s2 = s1\<lparr>queue := queue s1 @ [(pkt_id event, curr_time s1, service_time_us)]\<rparr>
                    in if \<not> in_service s2 then TraceSimulator_start_service s2 else Inr s2)))"

definition TraceSimulator_handle_departure :: "TraceSimulator \<Rightarrow> Event \<Rightarrow> error + TraceSimulator" where
  "TraceSimulator_handle_departure s event =
     (case queue s of
        [] \<Rightarrow> Inl IndexError
      | (pid, arrival_time', _) # rest \<Rightarrow>
          (let delay = curr_time s - arrival_time';
               s1 = s\<lparr>queue := rest,
                      total_delay := total_delay s + delay,
                      total_pkts := total_pkts s + 1,
                      pkts_in_system := pkts_in_system s - 1\<rparr>
           in if queue s1 \<noteq> [] then TraceSimulator_start_service s1
              else Inr (s1\<lparr>in_service := False\<rparr>)))"

definition TraceSimulator_iteration :: "TraceSimulator \<Rightarrow> error + TraceSimulator \<times> Event" where
  "TraceSimulator_iteration s =
     (case heappop Event_lt (event_list s) of
        None \<Rightarrow> Inl IndexError
      | Some (event, rest) \<Rightarrow>
          (let s1 = s\<lparr>event_list := rest, curr_time := time event\<rparr>;
               s2 = s1\<lparr>area_under_q := area_under_q s1
                         + real_of_int (pkts_in_system s1) * (curr_time s1 - last_event_time s1)\<rparr>;
               s3 = s2\<lparr>last_event_time := curr_time s2\<rparr>
           in case (case type event of
                      Arrival \<Rightarrow> TraceSimulator_handle_arrival s3 event
                    | Departure \<Rightarrow> TraceSimulator_handle_departure s3 event) of
                Inl e \<Rightarrow> Inl e
              | Inr s4 \<Rightarrow> Inr (s4, event)))"

text \<open>The loop \<open>while self.event_list\<close>, on fuel, with the list of popped events.\<close>

fun TraceSimulator_loop :: "nat \<Rightarrow> TraceSimulator \<Rightarrow> Event list
    \<Rightarrow> (error + TraceSimulator \<times> Event list) option" where
  "TraceSimulator_loop 0 s popped =
     (if event_list s \<noteq> [] then None else Some (Inr (s, popped)))"
| "TraceSimulator_loop (Suc fuel) s popped =
     (if event_list s \<noteq> [] then
        (case TraceSimulator_iteration s of
           Inl e \<Rightarrow> Some (Inl e)
         | Inr (s', event) \<Rightarrow> TraceSimulator_loop fuel s' (popped @ [event]))
      else Some (Inr (s, popped)))"

text \<open>
  The first loop of \<open>run\<close>: one arrival event per row of the trace, at the running sum
  of the inter-arrival values.
\<close>

fun TraceSimulator_schedule_arrivals :: "TraceSimulator \<Rightarrow> real \<Rightarrow> nat \<Rightarrow> (real \<times> real) list
    \<Rightarrow> TraceSimulator" where
  "TraceSimulator_schedule_arrivals s t_prev pid [] = s"
| "TraceSimulator_schedule_arrivals s t_prev pid (row # rows) =
     (let inter_arrival = fst row;
          t_next = t_prev + inter_arrival
      in TraceSimulator_schedule_arrivals
           (TraceSimulator_schedule_event s \<lparr>time = t_next, type = Arrival, pkt_id = pid\<rparr>)
           t_next (pid + 1) rows)"

definition TraceSimulator_run :: "nat \<Rightarrow> TraceSimulator
    \<Rightarrow> (error + TraceSimulator \<times> Event list) option" where
  "TraceSimulator_run fuel s =
     (let s1 = TraceSimulator_schedule_arrivals s 0 0 (trace s) in
      if event_list s1 = [] then Some (Inr (s1, []))
      else TraceSimulator_loop fuel s1 [])"

definition TraceSimulator_print_stats :: "TraceSimulator \<Rightarrow> error + Stats" where
  "TraceSimulator_print_stats s =
     (if curr_time s = 0 then Inl ZeroDivisionError
      else (let n = area_under_q s / curr_time s in
        if total_pkts s = 0 then Inl ZeroDivisionError
        else (let t = total_delay s / real (total_pkts s);
                  total_arrivals = sum_list (queue_len_record s)
              in case pn_loop (queue_len_record s) total_arrivals [0..<11] of
                   Inl e \<Rightarrow> Inl e
                 | Inr ps \<Rightarrow>
                     (if 11 \<ge> length (queue_len_record s) then Inl IndexError
                      else if total_arrivals = 0 then Inl ZeroDivisionError
                      else Inr \<lparr>N = n, T = t,
                                pn_probs = ps @ [real (queue_len_record s ! 11) / real total_arrivals]\<rparr>))))"

text \<open>The state after the first \<open>k\<close> iterations of the loop, with the events popped.\<close>

fun TraceSimulator_iterations :: "nat \<Rightarrow> TraceSimulator \<Rightarrow> Event list
    \<Rightarrow> error + TraceSimulator \<times> Event list" where
  "TraceSimulator_iterations 0 s popped = Inr (s, popped)"
| "TraceSimulator_iterations (Suc k) s popped =
     (if event_list s \<noteq> [] then
        (case TraceSimulator_iteration s of
           Inl e \<Rightarrow> Inl e
         | Inr (s', event) \<Rightarrow> TraceSimulator_iterations k s' (popped @ [event]))
      else Inr (s, popped))"

section \<open>What the claims speak of\<close>

text \<open>
  The heap property of a list, for items compared by a key: no item is below its
  parent. \<open>hole_inv\<close> is the same with the position \<open>pos\<close> left out, the children of
  \<open>pos\<close> being compared with its parent instead.
\<close>

definition heap_inv :: "('a \<Rightarrow> real) \<Rightarrow> 'a list \<Rightarrow> bool" where
  "heap_inv key h = (\<forall>i. 0 < i \<and> i < length h \<longrightarrow> key (h ! ((i - 1) div 2)) \<le> key (h ! i))"

definition hole_inv :: "('a \<Rightarrow> real) \<Rightarrow> 'a list \<Rightarrow> nat \<Rightarrow> bool" where
  "hole_inv key h pos =
     ((\<forall>i. 0 < i \<and> i < length h \<and> i \<noteq> pos \<and> (i - 1) div 2 \<noteq> pos
          \<longrightarrow> key (h ! ((i - 1) div 2)) \<le> key (h ! i))
      \<and> (0 < pos \<longrightarrow> (\<forall>i. 0 < i \<and> i < length h \<and> (i - 1) div 2 = pos
          \<longrightarrow> key (h ! ((pos - 1) div 2)) \<le> key (h ! i))))"

text \<open>
  A sequence of processed events is observed as the list of their times and kinds.
  \<open>count_after n es\<close> is the number of packets in the system after the events \<open>es\<close>,
  starting from \<open>n\<close>; \<open>clock_after t es\<close> the time of the last of them (\<open>t\<close> when
  there is none); \<open>area_under t n es\<close> the area under the step function of the number
  in the system, from time \<open>t\<close> with \<open>n\<close> packets, up to the last event.
\<close>

definition delta :: "event_type \<Rightarrow> int" where
  "delta k = (case k of Arrival \<Rightarrow> 1 | Departure \<Rightarrow> - 1)"

fun count_after :: "int \<Rightarrow> (real \<times> event_type) list \<Rightarrow> int" where
  "count_after n [] = n"
| "count_after n ((t, k) # es) = count_after (n + delta k) es"

fun clock_after :: "real \<Rightarrow> (real \<times> event_type) list \<Rightarrow> real" where
  "clock_after t [] = t"
| "clock_after t ((t', k) # es) = clock_after t' es"

fun area_under :: "real \<Rightarrow> int \<Rightarrow> (real \<times> event_type) list \<Rightarrow> real" where
  "area_under t n [] = 0"
| "area_under t n ((t', k) # es) = real_of_int n * (t' - t) + area_under t' (n + delta k) es"

definition observe :: "Event \<Rightarrow> real \<times> event_type" where
  "observe e = (time e, type e)"

definition observe_001 :: "Event_001 \<Rightarrow> real \<times> event_type" where
  "observe_001 e = (Event_001.time e, event_type e)"

text \<open>The events of a kind, in a list and in the heap.\<close>

definition arrivals :: "Event list \<Rightarrow> Event list" where
  "arrivals es = filter (\<lambda>e. type e = Arrival) es"

definition departures :: "Event list \<Rightarrow> Event list" where
  "departures es = filter (\<lambda>e. type e = Departure) es"

definition arrivals_001 :: "Event_001 list \<Rightarrow> Event_001 list" where
  "arrivals_001 es = filter (\<lambda>e. event_type e = Arrival) es"

definition departures_001 :: "Event_001 list \<Rightarrow> Event_001 list" where
  "departures_001 es = filter (\<lambda>e. event_type e = Departure) es"

section \<open>The heap keeps its items\<close>

lemma siftdown_loop_mset:
  "pos < length heap \<Longrightarrow>
   mset (siftdown_loop lt heap startpos pos newitem) = mset (heap[pos := newitem])"
proof (induction lt heap startpos pos newitem rule: siftdown_loop.induct)
  case (1 lt heap startpos pos newitem)
  let ?pp = "(pos - 1) div 2"
  show ?case
  proof (cases "startpos < pos \<and> lt newitem (heap ! ?pp)")
    case True
    then have pp: "?pp < pos" by arith
    have len: "?pp < length (heap[pos := heap ! ?pp])"
      using pp "1.prems" by simp
    have ih: "mset (siftdown_loop lt (heap[pos := heap ! ?pp]) startpos ?pp newitem)
              = mset (heap[pos := heap ! ?pp, ?pp := newitem])"
      using "1.IH"[OF _ refl refl _ len] True by simp
    have unf: "siftdown_loop lt heap startpos pos newitem
               = siftdown_loop lt (heap[pos := heap ! ?pp]) startpos ?pp newitem"
      using True by (subst siftdown_loop.simps) (simp add: Let_def)
    have "mset (heap[pos := heap ! ?pp, ?pp := newitem]) = mset (heap[pos := newitem])"
      using pp "1.prems" by (simp add: mset_update nth_list_update)
    with ih unf show ?thesis by simp
  next
    case False
    then show ?thesis by (subst siftdown_loop.simps) (auto simp: Let_def)
  qed
qed

lemma siftdown_loop_length:
  "length (siftdown_loop lt heap startpos pos newitem) = length heap"
proof (induction lt heap startpos pos newitem rule: siftdown_loop.induct)
  case (1 lt heap startpos pos newitem)
  show ?case
    using 1 by (subst siftdown_loop.simps) (auto simp: Let_def)
qed

lemma siftdown_mset: "pos < length heap \<Longrightarrow> mset (siftdown lt heap startpos pos) = mset heap"
  by (simp add: siftdown_def siftdown_loop_mset)

lemma siftup_loop_props:
  "siftup_loop lt heap endpos pos = (h', p') \<Longrightarrow> pos < length heap \<Longrightarrow> endpos \<le> length heap \<Longrightarrow>
   p' < length heap \<and> length h' = length heap \<and> mset (h'[p' := x]) = mset (heap[pos := x])"
proof (induction lt heap endpos pos arbitrary: h' p' rule: siftup_loop.induct)
  case (1 lt heap endpos pos)
  let ?cp = "2 * pos + 1"
  let ?c = "if ?cp + 1 < endpos \<and> \<not> lt (heap ! ?cp) (heap ! (?cp + 1)) then ?cp + 1 else ?cp"
  show ?case
  proof (cases "?cp < endpos")
    case True
    have c: "?c < endpos" "pos < ?c" using True by auto
    have unf: "siftup_loop lt heap endpos pos = siftup_loop lt (heap[pos := heap ! ?c]) endpos ?c"
      using True by (subst siftup_loop.simps) (simp add: Let_def)
    have rec: "siftup_loop lt (heap[pos := heap ! ?c]) endpos ?c = (h', p')"
      using unf "1.prems"(1) by simp
    have len: "?c < length (heap[pos := heap ! ?c])" "endpos \<le> length (heap[pos := heap ! ?c])"
      using c "1.prems" by auto
    have ih: "p' < length (heap[pos := heap ! ?c]) \<and> length h' = length (heap[pos := heap ! ?c])
          \<and> mset (h'[p' := x]) = mset (heap[pos := heap ! ?c, ?c := x])"
      using "1.IH"[OF refl True refl refl rec len] .
    have "mset (heap[pos := heap ! ?c, ?c := x]) = mset (heap[pos := x])"
      using c "1.prems" len by (simp add: mset_update nth_list_update)
    with ih show ?thesis by simp
  next
    case False
    then have "siftup_loop lt heap endpos pos = (heap, pos)"
      by (subst siftup_loop.simps) (simp add: Let_def)
    with "1.prems" show ?thesis by simp
  qed
qed

lemma heappush_mset: "mset (heappush lt heap item) = add_mset item (mset heap)"
  by (simp add: heappush_def siftdown_mset)

lemma heappush_length: "length (heappush lt heap item) = Suc (length heap)"
  by (simp add: heappush_def siftdown_def siftdown_loop_length)

lemma heappop_None: "heappop lt heap = None \<longleftrightarrow> heap = []"
  by (simp add: heappop_def Let_def)

lemma heappop_mset:
  assumes "heappop lt heap = Some (e, rest)"
  shows "mset heap = add_mset e (mset rest)"
proof -
  from assms have ne: "heap \<noteq> []" by (auto simp: heappop_def)
  then have split: "heap = butlast heap @ [last heap]" by simp
  show ?thesis
  proof (cases "butlast heap = []")
    case True
    with assms ne split have "e = last heap" "rest = []" by (auto simp: heappop_def Let_def)
    with True split show ?thesis by (metis mset.simps(1) mset.simps(2) append_Nil)
  next
    case False
    let ?h = "butlast heap"
    let ?g = "?h[0 := last heap]"
    obtain h1 p1 where sl: "siftup_loop lt ?g (length ?g) 0 = (h1, p1)" by fastforce
    have g0: "0 < length ?g" using False by (simp del: length_butlast)
    from siftup_loop_props[OF sl g0, of "last heap"]
    have p: "p1 < length ?g" "length h1 = length ?g" "mset (h1[p1 := last heap]) = mset ?g"
      by auto
    from assms ne False sl have e: "e = ?h ! 0"
      and r: "rest = siftdown lt (h1[p1 := ?g ! 0]) 0 p1"
      by (auto simp: heappop_def Let_def siftup_def)
    have h0: "0 < length ?h" using False by (simp del: length_butlast)
    have mem: "?h ! 0 \<in># mset ?h" using h0 by (simp del: length_butlast)
    have "mset rest = mset ?g" using r p g0 by (simp add: siftdown_mset)
    also have "\<dots> = add_mset (last heap) (mset ?h - {#?h ! 0#})"
      using h0 by (simp add: mset_update del: length_butlast)
    finally have "add_mset e (mset rest)
        = add_mset (last heap) (add_mset (?h ! 0) (mset ?h - {#?h ! 0#}))"
      using e by simp
    then have "add_mset e (mset rest) = add_mset (last heap) (mset ?h)"
      using insert_DiffM[OF mem] by simp
    moreover have "mset heap = add_mset (last heap) (mset ?h)"
      by (subst split) simp
    ultimately show ?thesis by simp
  qed
qed

section \<open>The heap keeps its order\<close>

lemma heap_min:
  assumes "heap_inv key h"
  shows "i < length h \<Longrightarrow> key (h ! 0) \<le> key (h ! i)"
proof (induction i rule: less_induct)
  case (less i)
  show ?case
  proof (cases "i = 0")
    case True
    then show ?thesis by simp
  next
    case False
    then have p: "(i - 1) div 2 < i" by arith
    with less.prems have "key (h ! 0) \<le> key (h ! ((i - 1) div 2))"
      using less.IH[of "(i - 1) div 2"] by simp
    moreover have "key (h ! ((i - 1) div 2)) \<le> key (h ! i)"
      using assms False less.prems by (simp add: heap_inv_def)
    ultimately show ?thesis by simp
  qed
qed

lemma heap_inv_fill:
  assumes "hole_inv key h pos" and "pos < length h"
    and "\<forall>i. 0 < i \<and> i < length h \<and> (i - 1) div 2 = pos \<longrightarrow> key x \<le> key (h ! i)"
    and "0 < pos \<longrightarrow> key (h ! ((pos - 1) div 2)) \<le> key x"
  shows "heap_inv key (h[pos := x])"
  unfolding heap_inv_def
proof (intro allI impI)
  fix i assume i: "0 < i \<and> i < length (h[pos := x])"
  then have p: "(i - 1) div 2 < i" by arith
  show "key (h[pos := x] ! ((i - 1) div 2)) \<le> key (h[pos := x] ! i)"
  proof (cases "i = pos")
    case True
    with i p assms(4) show ?thesis by (simp add: nth_list_update)
  next
    case False
    show ?thesis
    proof (cases "(i - 1) div 2 = pos")
      case True
      with i False assms(2,3) show ?thesis by (simp add: nth_list_update)
    next
      case F2: False
      with i False assms(1) show ?thesis by (simp add: nth_list_update hole_inv_def)
    qed
  qed
qed

lemma siftdown_loop_heap:
  assumes lt: "\<And>a b. lt a b = (key a < key b)"
  shows "hole_inv key heap pos \<Longrightarrow> pos < length heap \<Longrightarrow>
    \<forall>i. 0 < i \<and> i < length heap \<and> (i - 1) div 2 = pos \<longrightarrow> key newitem \<le> key (heap ! i) \<Longrightarrow>
    heap_inv key (siftdown_loop lt heap 0 pos newitem)"
proof (induction pos arbitrary: heap rule: less_induct)
  case (less pos)
  let ?pp = "(pos - 1) div 2"
  show ?case
  proof (cases "0 < pos \<and> lt newitem (heap ! ?pp)")
    case True
    then have pp: "?pp < pos" by arith
    let ?h1 = "heap[pos := heap ! ?pp]"
    have unf: "siftdown_loop lt heap 0 pos newitem = siftdown_loop lt ?h1 0 ?pp newitem"
      using True by (subst siftdown_loop.simps) (simp add: Let_def)
    have lt_new: "key newitem < key (heap ! ?pp)" using True lt by simp
    have hole1: "\<forall>i. 0 < i \<and> i < length heap \<and> i \<noteq> pos \<and> (i - 1) div 2 \<noteq> pos
          \<longrightarrow> key (heap ! ((i - 1) div 2)) \<le> key (heap ! i)"
      using less.prems(1) by (simp add: hole_inv_def)
    have hole2: "\<forall>i. 0 < i \<and> i < length heap \<and> (i - 1) div 2 = pos
          \<longrightarrow> key (heap ! ?pp) \<le> key (heap ! i)"
      using less.prems(1) True by (simp add: hole_inv_def)
    have a: "hole_inv key ?h1 ?pp"
      unfolding hole_inv_def
    proof (intro conjI allI impI)
      fix i assume i: "0 < i \<and> i < length ?h1 \<and> i \<noteq> ?pp \<and> (i - 1) div 2 \<noteq> ?pp"
      then have ip: "(i - 1) div 2 < i" by arith
      from i have ne: "i \<noteq> pos" by auto
      show "key (?h1 ! ((i - 1) div 2)) \<le> key (?h1 ! i)"
      proof (cases "(i - 1) div 2 = pos")
        case True
        with i ne hole2 less.prems(2) show ?thesis by (simp add: nth_list_update)
      next
        case False
        with i ne hole1 show ?thesis by (simp add: nth_list_update)
      qed
    next
      fix i assume pp0: "0 < ?pp" and i: "0 < i \<and> i < length ?h1 \<and> (i - 1) div 2 = ?pp"
      have ppp: "(?pp - 1) div 2 < ?pp" using pp0 by arith
      have gp: "key (heap ! ((?pp - 1) div 2)) \<le> key (heap ! ?pp)"
        using hole1 pp0 pp less.prems(2) ppp by auto
      have nth_gp: "?h1 ! ((?pp - 1) div 2) = heap ! ((?pp - 1) div 2)"
        using ppp pp by (simp add: nth_list_update)
      show "key (?h1 ! ((?pp - 1) div 2)) \<le> key (?h1 ! i)"
      proof (cases "i = pos")
        case True
        with gp nth_gp less.prems(2) show ?thesis by (simp add: nth_list_update)
      next
        case False
        have "key (heap ! ?pp) \<le> key (heap ! i)"
          using hole1 i False pp by auto
        with gp nth_gp False i show ?thesis by (simp add: nth_list_update)
      qed
    qed
    have b: "?pp < length ?h1" using pp less.prems(2) by simp
    have c: "\<forall>i. 0 < i \<and> i < length ?h1 \<and> (i - 1) div 2 = ?pp \<longrightarrow> key newitem \<le> key (?h1 ! i)"
    proof (intro allI impI)
      fix i assume i: "0 < i \<and> i < length ?h1 \<and> (i - 1) div 2 = ?pp"
      show "key newitem \<le> key (?h1 ! i)"
      proof (cases "i = pos")
        case True
        with lt_new less.prems(2) show ?thesis by (simp add: nth_list_update)
      next
        case False
        have "key (heap ! ?pp) \<le> key (heap ! i)"
          using hole1 i False pp by auto
        with lt_new False i show ?thesis by (simp add: nth_list_update)
      qed
    qed
    from less.IH[OF pp a b c] unf show ?thesis by simp
  next
    case False
    then have unf: "siftdown_loop lt heap 0 pos newitem = heap[pos := newitem]"
      by (subst siftdown_loop.simps) (auto simp: Let_def)
    have "0 < pos \<longrightarrow> key (heap ! ?pp) \<le> key newitem"
      using False lt by auto
    from heap_inv_fill[OF less.prems(1,2,3) this] unf show ?thesis by simp
  qed
qed

lemma siftup_loop_heap:
  assumes lt: "\<And>a b. lt a b = (key a < key b)"
  shows "siftup_loop lt heap (length heap) pos = (h', p') \<Longrightarrow> pos < length heap \<Longrightarrow>
    hole_inv key heap pos \<Longrightarrow>
    hole_inv key h' p' \<and> p' < length h' \<and> length h' = length heap \<and> length h' \<le> 2 * p' + 1"
proof (induction "length heap - pos" arbitrary: heap pos rule: less_induct)
  case less
  let ?cp = "2 * pos + 1"
  let ?c = "if ?cp + 1 < length heap \<and> \<not> lt (heap ! ?cp) (heap ! (?cp + 1)) then ?cp + 1 else ?cp"
  show ?case
  proof (cases "?cp < length heap")
    case True
    let ?h1 = "heap[pos := heap ! ?c]"
    have c: "?c < length heap" "pos < ?c" "(?c - 1) div 2 = pos" using True by auto
    have unf: "siftup_loop lt heap (length heap) pos = siftup_loop lt ?h1 (length ?h1) ?c"
      using True by (subst siftup_loop.simps) (simp add: Let_def)
    have small: "\<forall>i. 0 < i \<and> i < length heap \<and> (i - 1) div 2 = pos \<longrightarrow> key (heap ! ?c) \<le> key (heap ! i)"
    proof (intro allI impI)
      fix i assume i: "0 < i \<and> i < length heap \<and> (i - 1) div 2 = pos"
      then have "i = ?cp \<or> i = ?cp + 1" by arith
      then show "key (heap ! ?c) \<le> key (heap ! i)"
        using i lt by (auto split: if_splits)
    qed
    have hole1: "\<forall>i. 0 < i \<and> i < length heap \<and> i \<noteq> pos \<and> (i - 1) div 2 \<noteq> pos
          \<longrightarrow> key (heap ! ((i - 1) div 2)) \<le> key (heap ! i)"
      using less.prems(3) by (simp add: hole_inv_def)
    have hole2: "0 < pos \<longrightarrow> (\<forall>i. 0 < i \<and> i < length heap \<and> (i - 1) div 2 = pos
          \<longrightarrow> key (heap ! ((pos - 1) div 2)) \<le> key (heap ! i))"
      using less.prems(3) by (simp add: hole_inv_def)
    have a: "hole_inv key ?h1 ?c"
      unfolding hole_inv_def
    proof (intro conjI allI impI)
      fix i assume i: "0 < i \<and> i < length ?h1 \<and> i \<noteq> ?c \<and> (i - 1) div 2 \<noteq> ?c"
      then have ip: "(i - 1) div 2 < i" by arith
      show "key (?h1 ! ((i - 1) div 2)) \<le> key (?h1 ! i)"
      proof (cases "i = pos")
        case True
        then have "0 < pos" using i by simp
        with hole2 c have "key (heap ! ((pos - 1) div 2)) \<le> key (heap ! ?c)" by auto
        with True ip less.prems(2) show ?thesis by (simp add: nth_list_update)
      next
        case False
        show ?thesis
        proof (cases "(i - 1) div 2 = pos")
          case True
          with small i have "key (heap ! ?c) \<le> key (heap ! i)" by simp
          with True False less.prems(2) show ?thesis by (simp add: nth_list_update)
        next
          case F2: False
          with False i hole1 show ?thesis by (simp add: nth_list_update)
        qed
      qed
    next
      fix i assume i: "0 < i \<and> i < length ?h1 \<and> (i - 1) div 2 = ?c"
      then have "i \<noteq> pos" "(i - 1) div 2 \<noteq> pos" using c by auto
      with i hole1 have "key (heap ! ?c) \<le> key (heap ! i)" by auto
      with c \<open>i \<noteq> pos\<close> less.prems(2) show "key (?h1 ! ((?c - 1) div 2)) \<le> key (?h1 ! i)"
        by (simp add: nth_list_update)
    qed
    have m: "length ?h1 - ?c < length heap - pos" using c by simp
    have r: "siftup_loop lt ?h1 (length ?h1) ?c = (h', p')" using unf less.prems(1) by simp
    have cl: "?c < length ?h1" using c by simp
    from less.hyps[OF m r cl a] show ?thesis by simp
  next
    case False
    then have "siftup_loop lt heap (length heap) pos = (heap, pos)"
      by (subst siftup_loop.simps) (simp add: Let_def)
    with less.prems False show ?thesis by auto
  qed
qed

lemma heappush_heap:
  assumes lt: "\<And>a b. lt a b = (key a < key b)" and h: "heap_inv key heap"
  shows "heap_inv key (heappush lt heap item)"
proof -
  let ?g = "heap @ [item]"
  have a: "hole_inv key ?g (length heap)"
    unfolding hole_inv_def
  proof (intro conjI allI impI)
    fix i assume i: "0 < i \<and> i < length ?g \<and> i \<noteq> length heap \<and> (i - 1) div 2 \<noteq> length heap"
    then have "i < length heap" "(i - 1) div 2 < length heap" by auto
    with i h show "key (?g ! ((i - 1) div 2)) \<le> key (?g ! i)"
      by (simp add: nth_append heap_inv_def)
  next
    fix i assume "0 < length heap" and i: "0 < i \<and> i < length ?g \<and> (i - 1) div 2 = length heap"
    then have False by auto
    then show "key (?g ! ((length heap - 1) div 2)) \<le> key (?g ! i)" by simp
  qed
  have c: "\<forall>i. 0 < i \<and> i < length ?g \<and> (i - 1) div 2 = length heap \<longrightarrow> key (?g ! length heap) \<le> key (?g ! i)"
  proof (intro allI impI)
    fix i assume i: "0 < i \<and> i < length ?g \<and> (i - 1) div 2 = length heap"
    then have "i = length heap" by auto
    then show "key (?g ! length heap) \<le> key (?g ! i)" by simp
  qed
  have b: "length heap < length ?g" by simp
  from siftdown_loop_heap[of lt key ?g "length heap" "?g ! length heap", OF lt a b c]
  show ?thesis by (simp add: heappush_def siftdown_def)
qed

lemma heappop_heap:
  assumes lt: "\<And>a b. lt a b = (key a < key b)" and h: "heap_inv key heap"
    and pop: "heappop lt heap = Some (e, rest)"
  shows "heap_inv key rest \<and> (\<forall>x \<in> set heap. key e \<le> key x)"
proof -
  from pop have ne: "heap \<noteq> []" by (auto simp: heappop_def)
  have e0: "e = heap ! 0"
  proof (cases "butlast heap = []")
    case True
    with pop ne have "e = last heap" by (auto simp: heappop_def Let_def)
    moreover from True ne have "length heap = 1"
      by (metis append_butlast_last_id append_Nil length_Cons list.size(3) One_nat_def)
    ultimately show ?thesis using ne by (simp add: last_conv_nth)
  next
    case False
    with pop ne have "e = butlast heap ! 0" by (auto simp: heappop_def Let_def)
    moreover have "0 < length (butlast heap)" using False by (simp del: length_butlast)
    ultimately show ?thesis by (simp add: nth_butlast del: length_butlast)
  qed
  have min: "\<forall>x \<in> set heap. key e \<le> key x"
    using heap_min[OF h] e0 by (auto simp: in_set_conv_nth)
  have inv: "heap_inv key rest"
  proof (cases "butlast heap = []")
    case True
    with pop ne have "rest = []" by (auto simp: heappop_def Let_def)
    then show ?thesis by (simp add: heap_inv_def)
  next
    case False
    let ?h = "butlast heap"
    let ?g = "?h[0 := last heap]"
    have g0: "0 < length ?g" using False by (simp del: length_butlast)
    obtain h1 p1 where sl: "siftup_loop lt ?g (length ?g) 0 = (h1, p1)" by fastforce
    have hole: "hole_inv key ?g 0"
      unfolding hole_inv_def
    proof (intro conjI allI impI)
      fix i assume i: "0 < i \<and> i < length ?g \<and> i \<noteq> 0 \<and> (i - 1) div 2 \<noteq> 0"
      then have il: "i < length heap" "(i - 1) div 2 < length ?h" "i < length ?h"
        by (auto simp del: length_butlast simp add: length_butlast) 
      have "key (heap ! ((i - 1) div 2)) \<le> key (heap ! i)"
        using h i il by (simp add: heap_inv_def)
      with i il show "key (?g ! ((i - 1) div 2)) \<le> key (?g ! i)"
        by (simp add: nth_list_update nth_butlast del: length_butlast)
    next
      fix i assume "(0::nat) < 0"
      then show "key (?g ! ((0 - 1) div 2)) \<le> key (?g ! i)" by simp
    qed
    from siftup_loop_heap[of lt key ?g 0 h1 p1, OF lt sl g0 hole]
    have p: "hole_inv key h1 p1" "p1 < length h1" "length h1 = length ?g" "length h1 \<le> 2 * p1 + 1"
      by auto
    have hole': "hole_inv key (h1[p1 := ?g ! 0]) p1"
      using p(1) by (auto simp: hole_inv_def nth_list_update)
    have nochild: "\<forall>i. 0 < i \<and> i < length (h1[p1 := ?g ! 0]) \<and> (i - 1) div 2 = p1
        \<longrightarrow> key ((h1[p1 := ?g ! 0]) ! p1) \<le> key ((h1[p1 := ?g ! 0]) ! i)"
    proof (intro allI impI)
      fix i assume i: "0 < i \<and> i < length (h1[p1 := ?g ! 0]) \<and> (i - 1) div 2 = p1"
      then have "2 * p1 + 1 \<le> i" by arith
      with i p(4) have False by simp
      then show "key ((h1[p1 := ?g ! 0]) ! p1) \<le> key ((h1[p1 := ?g ! 0]) ! i)" by simp
    qed
    have pl: "p1 < length (h1[p1 := ?g ! 0])" using p(2) by simp
    from pop ne False sl have r: "rest = siftdown lt (h1[p1 := ?g ! 0]) 0 p1"
      by (auto simp: heappop_def Let_def siftup_def)
    from siftdown_loop_heap[of lt key "h1[p1 := ?g ! 0]" p1 "(h1[p1 := ?g ! 0]) ! p1", OF lt hole' pl nochild]
    show ?thesis using r by (simp add: siftdown_def)
  qed
  from inv min show ?thesis by simp
qed


section \<open>Induction over the loops\<close>

lemma MM1Simulator_loop_induct:
  assumes "MM1Simulator_loop u fuel s p = Some (Inr (s', p'))"
    and "I s p"
    and "\<And>s p s1 e. I s p \<Longrightarrow> int (MM1Simulator.total_pkts s) < MM1Simulator.npkts s \<Longrightarrow>
           MM1Simulator_iteration u s = Inr (s1, e) \<Longrightarrow> I s1 (p @ [e])"
  shows "I s' p'"
  using assms(1,2)
proof (induction fuel arbitrary: s p)
  case 0
  then show ?case by (auto split: if_splits)
next
  case (Suc fuel)
  show ?case
  proof (cases "int (MM1Simulator.total_pkts s) < MM1Simulator.npkts s")
    case True
    with Suc.prems(1) obtain s1 e where it: "MM1Simulator_iteration u s = Inr (s1, e)"
      and rest: "MM1Simulator_loop u fuel s1 (p @ [e]) = Some (Inr (s', p'))"
      by (auto split: sum.splits)
    from assms(3)[OF Suc.prems(2) True it] have "I s1 (p @ [e])" .
    from Suc.IH[OF rest this] show ?thesis .
  next
    case False
    with Suc.prems show ?thesis by auto
  qed
qed

lemma TraceSimulator_loop_induct:
  assumes "TraceSimulator_loop fuel s p = Some (Inr (s', p'))"
    and "I s p"
    and "\<And>s p s1 e. I s p \<Longrightarrow> event_list s \<noteq> [] \<Longrightarrow>
           TraceSimulator_iteration s = Inr (s1, e) \<Longrightarrow> I s1 (p @ [e])"
  shows "I s' p'"
  using assms(1,2)
proof (induction fuel arbitrary: s p)
  case 0
  then show ?case by (auto split: if_splits)
next
  case (Suc fuel)
  show ?case
  proof (cases "event_list s \<noteq> []")
    case True
    with Suc.prems(1) obtain s1 e where it: "TraceSimulator_iteration s = Inr (s1, e)"
      and rest: "TraceSimulator_loop fuel s1 (p @ [e]) = Some (Inr (s', p'))"
      by (auto split: sum.splits)
    from assms(3)[OF Suc.prems(2) True it] have "I s1 (p @ [e])" .
    from Suc.IH[OF rest this] show ?thesis .
  next
    case False
    with Suc.prems show ?thesis by auto
  qed
qed

section \<open>The reports\<close>

text \<open>
  C4 (as amended). The reports divide without a guard. In \<open>MM1Simulator\<close> all
  operands are Python numbers, so a report on a state whose clock is zero or whose
  count of departed packets is zero raises ZeroDivisionError; so does the report of
  \<open>TraceSimulator\<close> after a run on an empty trace, which returns before any event.
  No sentinel is reported. (After events, the operands of \<open>TraceSimulator\<close> are
  numpy numbers read from the trace, whose division by zero is outside this model.)
\<close>

theorem print_stats_zero_denominator_raises:
  "(MM1Simulator.curr_time s = 0 \<or> MM1Simulator.total_pkts s = 0
      \<longrightarrow> MM1Simulator_print_stats s = Inl ZeroDivisionError)
   \<and> (TraceSimulator_run fuel (TraceSimulator_init []) = Some (Inr (t, popped))
      \<longrightarrow> TraceSimulator_print_stats t = Inl ZeroDivisionError)"
  by (auto simp: MM1Simulator_print_stats_def TraceSimulator_print_stats_def
      TraceSimulator_run_def TraceSimulator_init_def Let_def)

theorem print_stats_zero_denominator_raises_witness:
  "MM1Simulator_print_stats (MM1Simulator_init 0 1) = Inl ZeroDivisionError
   \<and> TraceSimulator_run 5 (TraceSimulator_init []) = Some (Inr (TraceSimulator_init [], []))
   \<and> TraceSimulator_print_stats (TraceSimulator_init []) = Inl ZeroDivisionError"
  using print_stats_zero_denominator_raises
    [of "MM1Simulator_init 0 1" 5 "TraceSimulator_init []" "[]"]
  by (simp add: MM1Simulator_init_def TraceSimulator_run_def TraceSimulator_init_def)

text \<open>
  C4 as stated fails: the run on the empty trace returns the initial state, and the
  report on it raises.
\<close>

theorem empty_trace_report_raises:
  "TraceSimulator_run 0 (TraceSimulator_init []) = Some (Inr (TraceSimulator_init [], []))
   \<and> TraceSimulator_print_stats (TraceSimulator_init []) = Inl ZeroDivisionError"
  by (simp add: TraceSimulator_run_def TraceSimulator_init_def TraceSimulator_print_stats_def)


end
